theory Spec2Isabelle
  imports Main
begin

section \<open>Python string primitives on ASCII text\<close>

text \<open>
  The two programs (\<^verbatim>\<open>dict_sw.py\<close>, the mapping mode, and \<^verbatim>\<open>dict_ac.py\<close>, the
  vocabulary mode) work on Python \<^verbatim>\<open>str\<close> values. A string is modelled as a
  \<^typ>\<open>string\<close> of ASCII characters; the character classes below are those of Python
  on code points below 128. Characters outside ASCII are outside this model.
\<close>

definition is_upper_char :: "char \<Rightarrow> bool" where
  "is_upper_char c = (65 \<le> (of_char c :: nat) \<and> (of_char c :: nat) \<le> 90)"

definition is_lower_char :: "char \<Rightarrow> bool" where
  "is_lower_char c = (97 \<le> (of_char c :: nat) \<and> (of_char c :: nat) \<le> 122)"

definition is_alpha_char :: "char \<Rightarrow> bool" where
  "is_alpha_char c = (is_upper_char c \<or> is_lower_char c)"

definition is_digit_char :: "char \<Rightarrow> bool" where
  "is_digit_char c = (48 \<le> (of_char c :: nat) \<and> (of_char c :: nat) \<le> 57)"

text \<open>The class \<^verbatim>\<open>\w\<close> of the \<^verbatim>\<open>re\<close> module: letters, digits and the underscore.\<close>

definition is_word_char :: "char \<Rightarrow> bool" where
  "is_word_char c = (is_alpha_char c \<or> is_digit_char c \<or> c = CHR ''_'')"

text \<open>
  Whitespace as \<^verbatim>\<open>str.strip\<close>, \<^verbatim>\<open>str.split\<close> and \<^verbatim>\<open>\s\<close> see it: tab, line feed,
  vertical tab, form feed, carriage return (9 to 13), the separators 28 to 31, and the
  space (32).
\<close>

definition is_space_char :: "char \<Rightarrow> bool" where
  "is_space_char c =
     (let n = (of_char c :: nat) in (9 \<le> n \<and> n \<le> 13) \<or> (28 \<le> n \<and> n \<le> 32))"

definition lower_char :: "char \<Rightarrow> char" where
  "lower_char c = (if is_upper_char c then char_of ((of_char c :: nat) + 32) else c)"

definition upper_char :: "char \<Rightarrow> char" where
  "upper_char c = (if is_lower_char c then char_of ((of_char c :: nat) - 32) else c)"

definition str_lower :: "string \<Rightarrow> string" where
  "str_lower s = map lower_char s"

text \<open>\<^verbatim>\<open>s.isupper()\<close>: at least one cased character, and no lowercase one.\<close>

definition str_isupper :: "string \<Rightarrow> bool" where
  "str_isupper s = (list_ex is_upper_char s \<and> \<not> list_ex is_lower_char s)"

definition str_isalpha :: "string \<Rightarrow> bool" where
  "str_isalpha s = (s \<noteq> [] \<and> list_all is_alpha_char s)"

definition str_strip :: "string \<Rightarrow> string" where
  "str_strip s = rev (dropWhile is_space_char (rev (dropWhile is_space_char s)))"

text \<open>\<^verbatim>\<open>s.rstrip(chars)\<close>: drop the trailing characters that are in \<open>chars\<close>.\<close>

definition str_rstrip_chars :: "string \<Rightarrow> string \<Rightarrow> string" where
  "str_rstrip_chars s chars = rev (dropWhile (\<lambda>c. c \<in> set chars) (rev s))"

text \<open>
  \<^verbatim>\<open>s.split()\<close>: the maximal runs of characters that are not whitespace, in order. The
  first character left by skipping the whitespace starts a word.
\<close>

function str_split :: "string \<Rightarrow> string list" where
  "str_split s =
     (case dropWhile is_space_char s of
        [] \<Rightarrow> []
      | c # cs \<Rightarrow>
          (c # takeWhile (\<lambda>x. \<not> is_space_char x) cs)
            # str_split (dropWhile (\<lambda>x. \<not> is_space_char x) cs))"
  by pat_completeness auto
termination
proof (relation "measure length", goal_cases)
  case 1
  show ?case by simp
next
  case (2 s c cs)
  have "length (dropWhile (\<lambda>x. \<not> is_space_char x) cs) \<le> length cs"
    by (rule length_dropWhile_le)
  moreover have "length (c # cs) \<le> length s"
    using 2 length_dropWhile_le [of is_space_char s] by simp
  ultimately show ?case by simp
qed

declare str_split.simps [simp del]

text \<open>\<^verbatim>\<open>sep.join(words)\<close>.\<close>

fun str_join :: "string \<Rightarrow> string list \<Rightarrow> string" where
  "str_join sep [] = []"
| "str_join sep [w] = w"
| "str_join sep (w # v # ws) = w @ sep @ str_join sep (v # ws)"

text \<open>\<^verbatim>\<open>s.split(sep)\<close> for a one-character separator: every separator cuts, and empty
  pieces are kept, so the result is never empty.\<close>

fun str_split_on :: "char \<Rightarrow> string \<Rightarrow> string list" where
  "str_split_on sep [] = [[]]"
| "str_split_on sep (c # cs) =
     (if c = sep then [] # str_split_on sep cs
      else (case str_split_on sep cs of
              [] \<Rightarrow> [[c]]
            | w # ws \<Rightarrow> (c # w) # ws))"

definition str_startswith :: "string \<Rightarrow> string \<Rightarrow> bool" where
  "str_startswith s k = (take (length k) s = k)"

definition str_endswith :: "string \<Rightarrow> string \<Rightarrow> bool" where
  "str_endswith s k = (length k \<le> length s \<and> drop (length s - length k) s = k)"

text \<open>\<^verbatim>\<open>sub in s\<close>: \<open>sub\<close> occurs in \<open>s\<close> as a contiguous substring.\<close>

fun str_contains :: "string \<Rightarrow> string \<Rightarrow> bool" where
  "str_contains sub [] = (sub = [])"
| "str_contains sub (c # cs) = (str_startswith (c # cs) sub \<or> str_contains sub cs)"

text \<open>\<^verbatim>\<open>s.rfind(ch)\<close> for one character: the last index of \<open>ch\<close>, or \<open>None\<close> for
  Python's \<open>-1\<close>.\<close>

fun str_rfind :: "string \<Rightarrow> char \<Rightarrow> nat option" where
  "str_rfind [] ch = None"
| "str_rfind (c # cs) ch =
     (case str_rfind cs ch of
        Some i \<Rightarrow> Some (Suc i)
      | None \<Rightarrow> (if c = ch then Some 0 else None))"

text \<open>The test \<^verbatim>\<open>w and len(w) > 0 and w[0].isupper()\<close> on a word.\<close>

definition first_isupper :: "string \<Rightarrow> bool" where
  "first_isupper w = (case w of [] \<Rightarrow> False | c # _ \<Rightarrow> is_upper_char c)"

text \<open>
  The capitalisation tests, and the test on the matched initials, divide two counts as
  floats and compare with \<open>0.7\<close>, \<open>0.4\<close> or \<open>0.3\<close>. For \<open>c \<le> n < 2\<^sup>5\<^sup>0\<close> the float quotient is the correctly rounded
  \<open>c / n\<close>, the literal is the correctly rounded decimal, and two different fractions
  with denominators up to \<open>10 * n\<close> differ by far more than one rounding step, so the
  float comparison agrees with the exact one, which is written here on naturals.
\<close>

definition cap_count :: "string list \<Rightarrow> nat" where
  "cap_count words = length (filter first_isupper words)"

section \<open>Mapping mode: \<^verbatim>\<open>SchwartzHearstExtractor\<close> (\<^verbatim>\<open>dict_sw.py\<close>)\<close>

definition stop_words_sw :: "string list" where
  "stop_words_sw = [''the'', ''a'', ''an'', ''and'', ''or'', ''of'', ''for'', ''in'', ''on'',
     ''at'', ''to'', ''by'', ''with'']"

definition heading_keywords_sw :: "string list" where
  "heading_keywords_sw = [''chapter'', ''section'', ''part'', ''article'', ''annexure'',
     ''appendix'', ''volume'', ''abstract'', ''introduction'', ''conclusion'', ''summary'',
     ''references'', ''index'', ''contents'', ''session'', ''appendices'', ''preface'',
     ''foreword'', ''acknowledgment'', ''bibliography'']"

subsection \<open>Heading rules\<close>

text \<open>
  \<^verbatim>\<open>re.match(r'^(\d+\.|\d+\.\d+|[IVXLCDM]+\.)\s+', line)\<close>. A run of digits or of Roman
  letters has to be taken whole, since the character after it must be the period; after
  the period comes whitespace, or (second alternative) a whole run of digits and then
  whitespace.
\<close>

definition starts_with_space :: "string \<Rightarrow> bool" where
  "starts_with_space s = (case s of [] \<Rightarrow> False | c # _ \<Rightarrow> is_space_char c)"

definition after_period :: "string \<Rightarrow> string option" where
  "after_period s = (case s of [] \<Rightarrow> None | c # cs \<Rightarrow> if c = CHR ''.'' then Some cs else None)"

definition rule_numbered :: "string \<Rightarrow> bool" where
  "rule_numbered line =
     (let ds = takeWhile is_digit_char line;
          rs = takeWhile (\<lambda>c. c \<in> set ''IVXLCDM'') line
      in if ds \<noteq> [] then
           (case after_period (dropWhile is_digit_char line) of
              None \<Rightarrow> False
            | Some r \<Rightarrow>
                starts_with_space r \<or>
                (takeWhile is_digit_char r \<noteq> [] \<and> starts_with_space (dropWhile is_digit_char r)))
         else if rs \<noteq> [] then
           (case after_period (dropWhile (\<lambda>c. c \<in> set ''IVXLCDM'') line) of
              None \<Rightarrow> False
            | Some r \<Rightarrow> starts_with_space r)
         else False)"

text \<open>The all-uppercase rule, with the word bounds of each mode.\<close>

definition rule_allcaps_sw :: "string \<Rightarrow> bool" where
  "rule_allcaps_sw line = (str_isupper line \<and> 2 \<le> length (str_split line) \<and> length (str_split line) \<le> 12)"

definition rule_colon :: "string \<Rightarrow> bool" where
  "rule_colon line = str_endswith line '':''"

text \<open>Title case: between 2 and \<open>hi\<close> words, at least 70 percent of them capitalised.\<close>

definition rule_titlecase :: "nat \<Rightarrow> string \<Rightarrow> bool" where
  "rule_titlecase hi line =
     (let words = str_split line in
      2 \<le> length words \<and> length words \<le> hi \<and> 7 * length words \<le> 10 * cap_count words)"

definition rule_keyword :: "string list \<Rightarrow> string \<Rightarrow> bool" where
  "rule_keyword keywords line = list_ex (\<lambda>keyword. str_startswith (str_lower line) keyword) keywords"

definition is_heading_sw :: "string \<Rightarrow> bool" where
  "is_heading_sw line0 =
     (if line0 = [] \<or> length (str_strip line0) = 0 then False
      else let line = str_strip line0 in
        if length (str_split line) = 0 then False
        else if rule_allcaps_sw line then True
        else if rule_colon line then True
        else if rule_numbered line then True
        else if rule_titlecase 8 line then True
        else if rule_keyword heading_keywords_sw line then True
        else False)"

definition remove_headings_from_text :: "string \<Rightarrow> string" where
  "remove_headings_from_text txt =
     str_join [CHR 0x0A] (filter (\<lambda>line. \<not> is_heading_sw line) (str_split_on (CHR 0x0A) txt))"

subsection \<open>Acronym tokens\<close>

definition false_positives :: "string list" where
  "false_positives = [''NO'', ''YES'', ''OK'', ''AM'', ''PM'', ''AD'', ''BC'']"

definition is_valid_acronym :: "string \<Rightarrow> bool" where
  "is_valid_acronym s =
     (if s = [] then False
      else if \<not> str_isupper s then False
      else if length s < 2 \<or> length s > 10 then False
      else if \<not> str_isalpha s then False
      else if length (remdups s) = 1 \<and> length s \<le> 2 then False
      else if s \<in> set false_positives then False
      else True)"

subsection \<open>The long-form matcher\<close>

text \<open>
  \<^verbatim>\<open>extract_min_max\<close> returns \<open>(None, None)\<close> when the long form is shorter than the
  short form, and otherwise \<open>(0, len(long_form))\<close>, where \<open>long_form\<close> is its own local
  variable, rebound to the last \<open>max_words\<close> words when there are more. The slice
  \<^verbatim>\<open>lf_words[-max_words:]\<close> is the whole list when \<open>max_words\<close> is 0.
\<close>

definition last_words :: "nat \<Rightarrow> string list \<Rightarrow> string list" where
  "last_words max_words lf_words =
     (if max_words = 0 then lf_words else drop (length lf_words - max_words) lf_words)"

definition extract_min_max :: "string \<Rightarrow> string \<Rightarrow> (nat \<times> nat) option" where
  "extract_min_max short_form long_form =
     (let sf_len = length short_form; lf_len = length long_form in
      if lf_len < sf_len then None
      else
        let lf_words = str_split long_form;
            max_words = min (sf_len + 5) (sf_len * 2);
            long_form' = (if length lf_words > max_words
                          then str_join '' '' (last_words max_words lf_words)
                          else long_form)
        in Some (0, length long_form'))"

text \<open>The inner loop: from \<open>lf_index\<close> down to 0, look for \<open>curr_char\<close>; the cursor
  ends one position before the match, or at \<open>-1\<close>.\<close>

function scan_back :: "string \<Rightarrow> char \<Rightarrow> int \<Rightarrow> bool \<times> int" where
  "scan_back long_form curr_char lf_index =
     (if lf_index \<ge> 0 then
        (if lower_char (long_form ! nat lf_index) = curr_char then (True, lf_index - 1)
         else scan_back long_form curr_char (lf_index - 1))
      else (False, lf_index))"
  by pat_completeness auto
termination
  by (relation "measure (\<lambda>(long_form, curr_char, lf_index). nat (lf_index + 1))") auto

declare scan_back.simps [simp del]

text \<open>The outer loop over the short form, from its last character to its first;
  \<open>None\<close> when a character is not found.\<close>

function match_back :: "string \<Rightarrow> string \<Rightarrow> int \<Rightarrow> int \<Rightarrow> int option" where
  "match_back short_form long_form sf_index lf_index =
     (if sf_index \<ge> 0 then
        (case scan_back long_form (lower_char (short_form ! nat sf_index)) lf_index of
           (found, lf_index') \<Rightarrow>
             if \<not> found then None
             else match_back short_form long_form (sf_index - 1) lf_index')
      else Some lf_index)"
  by pat_completeness auto
termination
  by (relation "measure (\<lambda>(short_form, long_form, sf_index, lf_index). nat (sf_index + 1))") auto

declare match_back.simps [simp del]

text \<open>The word-boundary loop: move \<open>start_pos\<close> left while the character before it is
  not a space, a tab or a line feed.\<close>

fun word_start :: "string \<Rightarrow> nat \<Rightarrow> nat" where
  "word_start long_form 0 = 0"
| "word_start long_form (Suc n) =
     (if long_form ! n \<notin> set [CHR '' '', CHR 0x09, CHR 0x0A] then word_start long_form n
      else Suc n)"

definition find_best_long_form :: "string \<Rightarrow> string \<Rightarrow> string option" where
  "find_best_long_form short_form0 long_form_candidate =
     (let short_form = str_strip short_form0;
          long_form = str_strip long_form_candidate
      in case extract_min_max short_form long_form of
           None \<Rightarrow> None
         | Some (min_idx, max_idx) \<Rightarrow>
             (case match_back short_form long_form
                     (int (length short_form) - 1) (int (length long_form) - 1) of
                None \<Rightarrow> None
              | Some lf_index \<Rightarrow>
                  let start_pos = word_start long_form (nat (lf_index + 1));
                      matched_long_form = str_strip (drop start_pos long_form)
                  in if length matched_long_form > 0 then Some matched_long_form else None))"

subsection \<open>Candidates in parentheses\<close>

text \<open>
  \<^verbatim>\<open>re.finditer(r'([^(]{0,200})\(([A-Z]{2,10})\)', text)\<close>. An attempt at one start
  position: the first group takes every character up to the next opening parenthesis
  (fewer would not leave the parenthesis next) and fails when these are more than 200;
  the second group takes the whole run of capital letters after the parenthesis (fewer
  would not leave the closing parenthesis next), 2 to 10 of them. \<open>match_paren\<close> also
  returns what follows the match.
\<close>

definition match_paren :: "string \<Rightarrow> (string \<times> string) option" where
  "match_paren s =
     (case s of
        [] \<Rightarrow> None
      | c # cs \<Rightarrow>
          if c = CHR ''('' then
            (let g2 = takeWhile is_upper_char cs; r = dropWhile is_upper_char cs in
             if 2 \<le> length g2 \<and> length g2 \<le> 10 then
               (case r of
                  [] \<Rightarrow> None
                | d # r' \<Rightarrow> if d = CHR '')'' then Some (g2, r') else None)
             else None)
          else None)"

definition match_at :: "string \<Rightarrow> (string \<times> string \<times> string) option" where
  "match_at s =
     (let g1 = takeWhile (\<lambda>c. c \<noteq> CHR ''('') s in
      if length g1 > 200 then None
      else (case match_paren (dropWhile (\<lambda>c. c \<noteq> CHR ''('') s) of
              None \<Rightarrow> None
            | Some (g2, r) \<Rightarrow> Some (g1, g2, r)))"

text \<open>The scan: the first start position at which an attempt succeeds gives a match,
  and the scan goes on after that match.\<close>

function finditer :: "string \<Rightarrow> (string \<times> string) list" where
  "finditer s =
     (case match_at s of
        Some (g1, g2, r) \<Rightarrow> (g1, g2) # finditer r
      | None \<Rightarrow> (case s of [] \<Rightarrow> [] | c # cs \<Rightarrow> finditer cs))"
  by pat_completeness auto
termination
proof (relation "measure length", goal_cases)
  case 1
  show ?case by simp
next
  case (2 s c cs)
  then show ?case by simp
next
  case (3 s m g1 p g2 r)
  then have "match_at s = Some (g1, g2, r)"
    by simp
  then have "match_paren (dropWhile (\<lambda>c. c \<noteq> CHR ''('') s) = Some (g2, r)"
    by (auto simp: match_at_def Let_def split: option.splits if_splits)
  then obtain cs where cs: "dropWhile (\<lambda>c. c \<noteq> CHR ''('') s = CHR ''('' # cs"
    and r: "dropWhile is_upper_char cs = CHR '')'' # r"
    by (auto simp: match_paren_def Let_def split: list.splits if_splits)
  have "length (dropWhile is_upper_char cs) \<le> length cs"
    by (rule length_dropWhile_le)
  moreover have "length (dropWhile (\<lambda>c. c \<noteq> CHR ''('') s) \<le> length s"
    by (rule length_dropWhile_le)
  ultimately show ?case
    using cs r by simp
qed

declare finditer.simps [simp del]

definition sentence_markers :: "char list" where
  "sentence_markers = [CHR ''.'', CHR ''!'', CHR ''?'', CHR '';'', CHR '':'']"

text \<open>The loop over the sentence markers: the first marker of the list that occurs in
  the candidate cuts it after its last occurrence, and the loop ends there.\<close>

fun cut_at_marker :: "char list \<Rightarrow> string \<Rightarrow> string" where
  "cut_at_marker [] long_form_candidate = long_form_candidate"
| "cut_at_marker (marker # markers) long_form_candidate =
     (case str_rfind long_form_candidate marker of
        Some last_pos \<Rightarrow> str_strip (drop (last_pos + 1) long_form_candidate)
      | None \<Rightarrow> cut_at_marker markers long_form_candidate)"

definition candidate_of :: "string \<times> string \<Rightarrow> (string \<times> string) option" where
  "candidate_of m =
     (case m of (g1, g2) \<Rightarrow>
        let long_form_candidate = str_strip g1; short_form = str_strip g2 in
        if \<not> is_valid_acronym short_form then None
        else
          let long_form_candidate' = cut_at_marker sentence_markers long_form_candidate in
          if long_form_candidate' \<noteq> [] then Some (short_form, long_form_candidate') else None)"

definition extract_candidates_from_parentheses :: "string \<Rightarrow> (string \<times> string) list" where
  "extract_candidates_from_parentheses txt = List.map_filter candidate_of (finditer txt)"

subsection \<open>Cleaning and validating a long form\<close>

text \<open>The words come from \<open>split\<close>, so none is empty and \<^verbatim>\<open>words[0][0]\<close> exists.\<close>

definition clean_long_form :: "string \<Rightarrow> string" where
  "clean_long_form long_form =
     (if long_form = [] then []
      else
        let words = dropWhile (\<lambda>w. str_lower w \<in> set stop_words_sw \<or> \<not> first_isupper w)
                      (str_split long_form);
            words' = (if words \<noteq> []
                      then butlast words @ [str_rstrip_chars (last words) ''.,;:!?'']
                      else words);
            result = str_join '' '' words'
        in case result of
             [] \<Rightarrow> result
           | c # cs \<Rightarrow> if is_lower_char c then upper_char c # cs else result)"

definition verb_indicators :: "string list" where
  "verb_indicators = ['' has '', '' have '', '' is '', '' are '', '' was '', '' were '',
     '' established '', '' created '']"

definition has_verb_indicator :: "string \<Rightarrow> bool" where
  "has_verb_indicator long_form =
     list_ex (\<lambda>indicator. str_contains indicator (str_lower long_form)) verb_indicators"

text \<open>\<^verbatim>\<open>cap_count / len(words) < 0.4\<close>.\<close>

definition low_capitalization :: "string \<Rightarrow> bool" where
  "low_capitalization long_form =
     (5 * cap_count (str_split long_form) < 2 * length (str_split long_form))"

definition initials_of :: "string list \<Rightarrow> string" where
  "initials_of words =
     concat (map (\<lambda>w. case w of [] \<Rightarrow> [] | c # _ \<Rightarrow> if is_alpha_char c then [upper_char c] else [])
       words)"

text \<open>The matching of the short form against the initials: \<open>initials\<close> is what is
  left of them from the cursor \<open>j\<close> on. A character that is found consumes the initials
  up to it; one that is not found leaves the cursor at the end.\<close>

fun count_matches :: "string \<Rightarrow> string \<Rightarrow> nat" where
  "count_matches [] initials = 0"
| "count_matches (ch # short_form) initials =
     (case dropWhile (\<lambda>i. i \<noteq> ch) initials of
        [] \<Rightarrow> count_matches short_form []
      | i # initials' \<Rightarrow> 1 + count_matches short_form initials')"

text \<open>\<^verbatim>\<open>match_ratio < 0.3\<close>, where the ratio is 0 for an empty short form.\<close>

definition low_match_ratio :: "string \<Rightarrow> string \<Rightarrow> bool" where
  "low_match_ratio short_form initials =
     (if length short_form > 0
      then 10 * count_matches short_form initials < 3 * length short_form
      else True)"

definition validate_long_form :: "string \<Rightarrow> string \<Rightarrow> bool" where
  "validate_long_form short_form long_form =
     (if long_form = [] \<or> length long_form < 3 then False
      else if length (str_split long_form) < 2 then False
      else if str_isupper long_form \<and> length (str_split long_form) \<ge> 3 then False
      else if has_verb_indicator long_form then False
      else if low_capitalization long_form then False
      else if length (initials_of (str_split long_form)) \<ge> 2
              \<and> low_match_ratio short_form (initials_of (str_split long_form)) then False
      else True)"

subsection \<open>The aggregator state and the extraction\<close>

record extractor =
  acronym_mappings :: "string \<rightharpoonup> string"
  acronym_frequencies :: "string \<rightharpoonup> nat"
  standalone_acronyms :: "string \<rightharpoonup> nat"

definition new_extractor :: extractor where
  "new_extractor =
     \<lparr>acronym_mappings = Map.empty, acronym_frequencies = Map.empty,
      standalone_acronyms = Map.empty\<rparr>"

text \<open>\<^verbatim>\<open>d[k] += 1\<close> on a \<^verbatim>\<open>defaultdict(int)\<close>, and the same on a plain dictionary
  after \<^verbatim>\<open>if k not in d: d[k] = 0\<close>.\<close>

definition increment :: "(string \<rightharpoonup> nat) \<Rightarrow> string \<Rightarrow> (string \<rightharpoonup> nat)" where
  "increment d k = d(k \<mapsto> (case d k of None \<Rightarrow> 1 | Some n \<Rightarrow> n + 1))"

text \<open>Matching, cleaning and validating one candidate; \<open>None\<close> is the \<^verbatim>\<open>continue\<close>.\<close>

definition accepted_long_form :: "string \<Rightarrow> string \<Rightarrow> string option" where
  "accepted_long_form short_form long_form_candidate =
     (case find_best_long_form short_form long_form_candidate of
        None \<Rightarrow> None
      | Some long_form0 \<Rightarrow>
          if long_form0 = [] then None
          else
            let long_form = clean_long_form long_form0 in
            if \<not> validate_long_form short_form long_form then None else Some long_form)"

text \<open>Storing a validated pair: the first long form is kept, the frequency counts.\<close>

definition store_mapping :: "extractor \<Rightarrow> string \<times> string \<Rightarrow> extractor" where
  "store_mapping st p =
     (case p of (short_form, long_form) \<Rightarrow>
        let st' = (if acronym_mappings st short_form = None
                   then st\<lparr>acronym_mappings := (acronym_mappings st)(short_form \<mapsto> long_form)\<rparr>
                   else st)
        in st'\<lparr>acronym_frequencies := increment (acronym_frequencies st') short_form\<rparr>)"

definition process_candidate :: "extractor \<Rightarrow> string \<times> string \<Rightarrow> extractor" where
  "process_candidate st cand =
     (case cand of (short_form, long_form_candidate) \<Rightarrow>
        (case accepted_long_form short_form long_form_candidate of
           None \<Rightarrow> st
         | Some long_form \<Rightarrow> store_mapping st (short_form, long_form)))"

text \<open>
  \<^verbatim>\<open>re.findall(r'\b[A-Z]{2,10}\b', text)\<close>: a match starts where the character before
  is not a word character, takes the whole run of capital letters (2 to 10 of them) and
  needs a character after it that is not a word character, or the end. \<open>prev_word\<close>
  tells whether the character before the current position is a word character.
\<close>

function findall_acronyms :: "bool \<Rightarrow> string \<Rightarrow> string list" where
  "findall_acronyms prev_word s =
     (case s of
        [] \<Rightarrow> []
      | c # cs \<Rightarrow>
          if \<not> prev_word \<and> 2 \<le> length (takeWhile is_upper_char s)
               \<and> length (takeWhile is_upper_char s) \<le> 10
               \<and> (case dropWhile is_upper_char s of [] \<Rightarrow> True | d # _ \<Rightarrow> \<not> is_word_char d)
          then takeWhile is_upper_char s # findall_acronyms True (dropWhile is_upper_char s)
          else findall_acronyms (is_word_char c) cs)"
  by pat_completeness auto
termination
proof (relation "measure (\<lambda>(prev_word, s). length s)", goal_cases)
  case 1
  show ?case by simp
next
  case (2 prev_word s c cs)
  have "length (takeWhile is_upper_char s) + length (dropWhile is_upper_char s) = length s"
    by (metis length_append takeWhile_dropWhile_id)
  with 2 show ?case by simp
next
  case (3 prev_word s c cs)
  then show ?case by simp
qed

declare findall_acronyms.simps [simp del]

definition count_standalone :: "extractor \<Rightarrow> string \<Rightarrow> extractor" where
  "count_standalone st acronym =
     (if is_valid_acronym acronym then
        (if acronym_mappings st acronym = None
         then st\<lparr>standalone_acronyms := increment (standalone_acronyms st) acronym\<rparr>
         else st)
      else st)"

definition extract_acronyms :: "extractor \<Rightarrow> string \<Rightarrow> extractor" where
  "extract_acronyms st txt0 =
     (let txt = remove_headings_from_text txt0;
          candidates = extract_candidates_from_parentheses txt;
          st1 = foldl process_candidate st candidates;
          all_acronyms = findall_acronyms False txt
      in foldl count_standalone st1 all_acronyms)"

text \<open>One document: its extracted text; nothing happens when there is none.\<close>

definition process_pdf_sw :: "extractor \<Rightarrow> string \<Rightarrow> extractor" where
  "process_pdf_sw st txt = (if txt = [] then st else extract_acronyms st txt)"

definition process_all_pdfs :: "extractor \<Rightarrow> string list \<Rightarrow> extractor" where
  "process_all_pdfs st texts = foldl process_pdf_sw st texts"

section \<open>Vocabulary mode: \<^verbatim>\<open>NavalDocumentProcessor\<close> (\<^verbatim>\<open>dict_ac.py\<close>)\<close>

definition heading_keywords_ac :: "string list" where
  "heading_keywords_ac = [''chapter'', ''section'', ''part'', ''article'', ''annexure'',
     ''appendix'', ''volume'', ''abstract'', ''introduction'', ''conclusion'', ''summary'',
     ''references'', ''index'', ''contents'']"

definition known_mixed_acronyms :: "string list" where
  "known_mixed_acronyms = [''phd'', ''mba'', ''latex'', ''mysql'', ''postgresql'',
     ''javascript'', ''iphone'', ''ipad'', ''ipod'', ''macbook'', ''ios'', ''macos'', ''ebay'',
     ''etsy'', ''paypal'', ''linkedin'', ''youtube'', ''mphil'', ''btech'', ''mtech'']"

definition rule_allcaps_ac :: "string \<Rightarrow> bool" where
  "rule_allcaps_ac line = (str_isupper line \<and> length (str_split line) \<le> 12)"

definition is_heading_ac :: "string \<Rightarrow> bool" where
  "is_heading_ac text_line0 =
     (if text_line0 = [] \<or> length (str_strip text_line0) = 0 then False
      else let text_line = str_strip text_line0 in
        if length (str_split text_line) = 0 then False
        else if rule_allcaps_ac text_line then True
        else if rule_titlecase 6 text_line then True
        else if rule_keyword heading_keywords_ac text_line then True
        else if rule_colon text_line then True
        else if rule_numbered text_line then True
        else False)"

subsection \<open>The Roman-numeral pattern\<close>

text \<open>
  \<^verbatim>\<open>^(?=[MDCLXVI])M{0,3}(CM|CD|D?C{0,3})(XC|XL|L?X{0,3})(IX|IV|V?I{0,3})$\<close> with
  \<^verbatim>\<open>re.IGNORECASE\<close>, applied by \<^verbatim>\<open>match\<close> to a word of letters: the whole word has to
  be in the language of the pattern. The pattern is kept as a regular expression, and
  membership is decided by taking the expression through the word character by
  character.
\<close>

datatype rx = Fail | Eps | Lit char | Alt rx rx | Cat rx rx

primrec accepts_empty :: "rx \<Rightarrow> bool" where
  "accepts_empty Fail = False"
| "accepts_empty Eps = True"
| "accepts_empty (Lit c) = False"
| "accepts_empty (Alt p q) = (accepts_empty p \<or> accepts_empty q)"
| "accepts_empty (Cat p q) = (accepts_empty p \<and> accepts_empty q)"

primrec after_char :: "char \<Rightarrow> rx \<Rightarrow> rx" where
  "after_char a Fail = Fail"
| "after_char a Eps = Fail"
| "after_char a (Lit c) = (if a = c then Eps else Fail)"
| "after_char a (Alt p q) = Alt (after_char a p) (after_char a q)"
| "after_char a (Cat p q) =
     (if accepts_empty p then Alt (Cat (after_char a p) q) (after_char a q)
      else Cat (after_char a p) q)"

definition rx_matches :: "rx \<Rightarrow> string \<Rightarrow> bool" where
  "rx_matches p s = accepts_empty (foldl (\<lambda>q a. after_char a q) p s)"

definition rx_opt :: "rx \<Rightarrow> rx" where
  "rx_opt p = Alt Eps p"

definition rx_upto3 :: "rx \<Rightarrow> rx" where
  "rx_upto3 p = Cat (rx_opt p) (Cat (rx_opt p) (rx_opt p))"

definition rx_word :: "string \<Rightarrow> rx" where
  "rx_word w = foldr (\<lambda>c p. Cat (Lit c) p) w Eps"

definition roman_digit :: "char \<Rightarrow> char \<Rightarrow> char \<Rightarrow> rx" where
  "roman_digit one five ten =
     Alt (rx_word [one, ten])
       (Alt (rx_word [one, five]) (Cat (rx_opt (Lit five)) (rx_upto3 (Lit one))))"

definition roman_rx :: rx where
  "roman_rx =
     Cat (rx_upto3 (Lit CHR ''M''))
       (Cat (roman_digit CHR ''C'' CHR ''D'' CHR ''M'')
         (Cat (roman_digit CHR ''X'' CHR ''L'' CHR ''C'')
              (roman_digit CHR ''I'' CHR ''V'' CHR ''X'')))"

definition roman_pattern_match :: "string \<Rightarrow> bool" where
  "roman_pattern_match word =
     (case word of
        [] \<Rightarrow> False
      | c # _ \<Rightarrow> upper_char c \<in> set ''MDCLXVI'' \<and> rx_matches roman_rx (map upper_char word))"

subsection \<open>Acronym classification\<close>

fun has_consecutive_caps :: "string \<Rightarrow> bool" where
  "has_consecutive_caps (c # d # cs) =
     ((is_upper_char c \<and> is_upper_char d) \<or> has_consecutive_caps (d # cs))"
| "has_consecutive_caps cs = False"

definition is_acronym :: "string \<Rightarrow> bool" where
  "is_acronym word =
     (if str_lower word \<in> set known_mixed_acronyms then True
      else if str_isupper word \<and> length word \<ge> 2 then True
      else if length (filter is_upper_char word) \<ge> 2 \<and> length word \<le> 6 then True
      else if length word \<ge> 3 \<and> length (filter is_upper_char word) \<ge> 2
              \<and> has_consecutive_caps word then True
      else False)"

subsection \<open>Tokens of a line\<close>

text \<open>
  \<^verbatim>\<open>re.sub(r'\s*\([^)]*\)', '', line)\<close>. An attempt at one position takes the whole
  run of whitespace, needs the opening parenthesis, and takes everything up to the next
  closing parenthesis, which must exist. A successful attempt is cut out and the scan
  goes on after it; a failed one keeps the character.
\<close>

definition match_parenthetical :: "string \<Rightarrow> string option" where
  "match_parenthetical s =
     (case dropWhile is_space_char s of
        [] \<Rightarrow> None
      | c # cs \<Rightarrow>
          if c = CHR ''('' then
            (case dropWhile (\<lambda>x. x \<noteq> CHR '')'') cs of
               [] \<Rightarrow> None
             | d # r \<Rightarrow> Some r)
          else None)"

function sub_parentheticals :: "string \<Rightarrow> string" where
  "sub_parentheticals s =
     (case match_parenthetical s of
        Some r \<Rightarrow> sub_parentheticals r
      | None \<Rightarrow> (case s of [] \<Rightarrow> [] | c # cs \<Rightarrow> c # sub_parentheticals cs))"
  by pat_completeness auto
termination
proof (relation "measure length", goal_cases)
  case 1
  show ?case by simp
next
  case (2 s c cs)
  then show ?case by simp
next
  case (3 s r)
  then obtain cs d where cs: "dropWhile is_space_char s = CHR ''('' # cs"
    and r: "dropWhile (\<lambda>x. x \<noteq> CHR '')'') cs = d # r"
    by (auto simp: match_parenthetical_def split: list.splits if_splits)
  have "length (dropWhile (\<lambda>x. x \<noteq> CHR '')'') cs) \<le> length cs"
    by (rule length_dropWhile_le)
  moreover have "length (dropWhile is_space_char s) \<le> length s"
    by (rule length_dropWhile_le)
  ultimately show ?case
    using cs r by simp
qed

declare sub_parentheticals.simps [simp del]

text \<open>
  \<^verbatim>\<open>re.findall(r'\b[a-zA-Z]{2,}\b', cleaned_line)\<close>: as for the acronym tokens of the
  mapping mode, with a whole run of at least 2 letters.
\<close>

function findall_words :: "bool \<Rightarrow> string \<Rightarrow> string list" where
  "findall_words prev_word s =
     (case s of
        [] \<Rightarrow> []
      | c # cs \<Rightarrow>
          if \<not> prev_word \<and> 2 \<le> length (takeWhile is_alpha_char s)
               \<and> (case dropWhile is_alpha_char s of [] \<Rightarrow> True | d # _ \<Rightarrow> \<not> is_word_char d)
          then takeWhile is_alpha_char s # findall_words True (dropWhile is_alpha_char s)
          else findall_words (is_word_char c) cs)"
  by pat_completeness auto
termination
proof (relation "measure (\<lambda>(prev_word, s). length s)", goal_cases)
  case 1
  show ?case by simp
next
  case (2 prev_word s c cs)
  have "length (takeWhile is_alpha_char s) + length (dropWhile is_alpha_char s) = length s"
    by (metis length_append takeWhile_dropWhile_id)
  with 2 show ?case by simp
next
  case (3 prev_word s c cs)
  then show ?case by simp
qed

declare findall_words.simps [simp del]

definition str_isascii :: "string \<Rightarrow> bool" where
  "str_isascii s = list_all (\<lambda>c. (of_char c :: nat) < 128) s"

subsection \<open>The counters and the extraction\<close>

record processor =
  lowercase_seen :: "string \<rightharpoonup> nat"
  standalone_acronyms_seen :: "string \<rightharpoonup> nat"

text \<open>
  The stop words are NLTK's English list, which is not part of the repository: every
  function that reads \<^verbatim>\<open>self.stop_words\<close> takes the list as its first argument. The
  accumulator of the loops is the processor with the list \<^verbatim>\<open>lowercase_words\<close>.
\<close>

definition process_word ::
  "string list \<Rightarrow> processor \<times> string list \<Rightarrow> string \<Rightarrow> processor \<times> string list" where
  "process_word stop_words acc word =
     (case acc of (st, lowercase_words) \<Rightarrow>
        if \<not> str_isalpha word then acc
        else if \<not> str_isascii word then acc
        else if roman_pattern_match word then acc
        else if str_lower word \<in> set stop_words then acc
        else if is_acronym word then
          (st\<lparr>standalone_acronyms_seen := increment (standalone_acronyms_seen st) word\<rparr>,
           lowercase_words)
        else (st, lowercase_words @ [str_lower word]))"

definition process_line ::
  "string list \<Rightarrow> processor \<times> string list \<Rightarrow> string \<Rightarrow> processor \<times> string list" where
  "process_line stop_words acc line =
     (if is_heading_ac line then acc
      else foldl (process_word stop_words) acc (findall_words False (sub_parentheticals line)))"

definition extract_words_from_text ::
  "string list \<Rightarrow> processor \<Rightarrow> string list \<Rightarrow> processor \<times> string list" where
  "extract_words_from_text stop_words st lines = foldl (process_line stop_words) (st, []) lines"

definition update_word_data :: "processor \<Rightarrow> string list \<Rightarrow> processor" where
  "update_word_data st lowercase_words =
     foldl (\<lambda>st word. st\<lparr>lowercase_seen := increment (lowercase_seen st) word\<rparr>) st lowercase_words"

text \<open>One document: its lines. Nothing happens when there are none; the counting of the
  lowercase words is skipped when there are none and no acronym has been seen so far.\<close>

definition process_pdf_ac :: "string list \<Rightarrow> processor \<Rightarrow> string list \<Rightarrow> processor" where
  "process_pdf_ac stop_words st lines =
     (if lines = [] then st
      else (case extract_words_from_text stop_words st lines of
              (st', lowercase_words) \<Rightarrow>
                if lowercase_words = [] \<and> standalone_acronyms_seen st' = Map.empty then st'
                else update_word_data st' lowercase_words))"

definition process_all_documents :: "string list \<Rightarrow> processor \<Rightarrow> string list list \<Rightarrow> processor" where
  "process_all_documents stop_words st docs = foldl (process_pdf_ac stop_words) st docs"

section \<open>Notions used by the properties\<close>

text \<open>The candidates of a list that pass matching, cleaning and validation, each with
  its cleaned long form, in the order of the list.\<close>

definition validated_pairs :: "(string \<times> string) list \<Rightarrow> (string \<times> string) list" where
  "validated_pairs candidates =
     List.map_filter
       (\<lambda>cand. case cand of (short_form, long_form_candidate) \<Rightarrow>
          map_option (Pair short_form) (accepted_long_form short_form long_form_candidate))
       candidates"

text \<open>A long form that is not empty, begins with a capital letter, and whose first
  word, in lowercase, is not a stop word.\<close>

definition well_formed_long_form :: "string \<Rightarrow> bool" where
  "well_formed_long_form long_form =
     (case long_form of
        [] \<Rightarrow> False
      | c # _ \<Rightarrow>
          is_upper_char c \<and>
          (case str_split long_form of
             [] \<Rightarrow> False
           | w # _ \<Rightarrow> str_lower w \<notin> set stop_words_sw))"

text \<open>Every long form in the mapping table is well formed.\<close>

definition stored_well_formed :: "extractor \<Rightarrow> bool" where
  "stored_well_formed st = (\<forall>k v. acronym_mappings st k = Some v \<longrightarrow> well_formed_long_form v)"

section \<open>The long-form matcher on examples\<close>

text \<open>
  C1. The specification expects the matcher to return
  \<open>North Atlantic Treaty Organization\<close> for the short form \<open>NATO\<close> and the clause
  \<open>the North Atlantic Treaty Organization\<close>. The backward matching of
  \<^verbatim>\<open>find_best_long_form\<close> accepts a letter anywhere in a word: \<open>o\<close>, \<open>t\<close>, \<open>a\<close> and
  \<open>n\<close> are all found inside the last word, so the matcher returns \<open>Organization\<close>,
  which the validator then rejects (one word), and the candidate is dropped. The
  validator does accept \<open>North Atlantic Treaty Organization\<close> when it is given it.
\<close>

theorem nato_match_evaluated:
  "find_best_long_form ''NATO'' ''the North Atlantic Treaty Organization'' = Some ''Organization''
   \<and> accepted_long_form ''NATO'' ''the North Atlantic Treaty Organization'' = None
   \<and> validate_long_form ''NATO'' ''North Atlantic Treaty Organization''"
  by code_simp

text \<open>
  C3. The bound on the number of words is computed by \<^verbatim>\<open>extract_min_max\<close> on its own
  local variable and never reaches the matching. For the short form \<open>AB\<close> the bound is 4
  words; the candidate \<open>alpha x y z b\<close> has 5. \<^verbatim>\<open>extract_min_max\<close> returns the length of
  the last 4 words, but the matching runs on all 5 and returns a long form of 5 words,
  where the last 4 words alone give no match.
\<close>

theorem word_bound_not_applied:
  "min (length ''AB'' + 5) (length ''AB'' * 2) = 4
   \<and> length (str_split ''alpha x y z b'') = 5
   \<and> extract_min_max ''AB'' ''alpha x y z b'' = Some (0, length ''x y z b'')
   \<and> find_best_long_form ''AB'' ''alpha x y z b'' = Some ''alpha x y z b''
   \<and> find_best_long_form ''AB'' ''x y z b'' = None"
  by code_simp

text \<open>
  C8. When the stripped candidate is shorter than the stripped short form, the matcher
  returns no match. (The matcher has no failing operation: every index it reads is
  guarded by its loop condition, so \<open>None\<close> is its only outcome besides a long form.)
\<close>

theorem shorter_candidate_no_match:
  "length (str_strip long_form_candidate) < length (str_strip short_form)
   \<Longrightarrow> find_best_long_form short_form long_form_candidate = None"
  by (simp add: find_best_long_form_def extract_min_max_def Let_def)

theorem shorter_candidate_no_match_witness:
  "length (str_strip ''UN '') < length (str_strip ''NATO'')
   \<and> find_best_long_form ''NATO'' ''UN '' = None"
proof -
  have h: "length (str_strip ''UN '') < length (str_strip ''NATO'')"
    by code_simp
  from h shorter_candidate_no_match [OF h] show ?thesis by simp
qed

section \<open>The candidate extractor on an example\<close>

text \<open>
  C5. The clause kept as the candidate should start after the last sentence mark. The
  loop over the marks stops at the first mark of its list that occurs at all: in
  \<open>a. b; c d (RD)\<close> the period is tried first and found, the text is cut after it, and
  the semicolon, which comes later in the text, stays in the candidate.
\<close>

theorem marker_cut_evaluated:
  "extract_candidates_from_parentheses ''a. b; c d (RD)'' = [(''RD'', ''b; c d'')]"
  by code_simp

section \<open>The validator on an example\<close>

lemma is_the_best_facts:
  "\<not> length (str_split ''is the best'') < 2" "\<not> str_isupper ''is the best''"
  "\<not> has_verb_indicator ''is the best''" "low_capitalization ''is the best''"
  by code_simp+

text \<open>
  C6, as stated: the verb marker \<open>is\<close> with a space on each side would have to occur in
  the lowercased phrase \<open>is the best\<close>. It does not: the phrase begins with \<open>is\<close>, with
  no space before it.
\<close>

theorem is_the_best_no_verb_marker:
  "\<not> str_contains '' is '' (str_lower ''is the best'')"
  by code_simp

text \<open>
  C6, amended: for every short form the validator rejects \<open>is the best\<close>. None of the
  verb markers occurs in it; it is rejected because none of its three words starts with
  a capital letter, which is fewer than 40 percent.
\<close>

theorem is_the_best_rejected:
  "validate_long_form short_form ''is the best'' = False
   \<and> has_verb_indicator ''is the best'' = False
   \<and> cap_count (str_split ''is the best'') = 0
   \<and> length (str_split ''is the best'') = 3
   \<and> low_capitalization ''is the best'' = True"
proof -
  have "cap_count (str_split ''is the best'') = 0" "length (str_split ''is the best'') = 3"
    by code_simp+
  then show ?thesis
    using is_the_best_facts by (simp add: validate_long_form_def)
qed

section \<open>The aggregator\<close>

lemma process_candidates_validated:
  "foldl process_candidate st candidates = foldl store_mapping st (validated_pairs candidates)"
proof (induction candidates arbitrary: st)
  case Nil
  show ?case by (simp add: validated_pairs_def map_filter_simps)
next
  case (Cons cand candidates)
  obtain short_form long_form_candidate where cand: "cand = (short_form, long_form_candidate)"
    by (cases cand)
  show ?case
  proof (cases "accepted_long_form short_form long_form_candidate")
    case None
    with cand Cons.IH [of st] show ?thesis
      by (simp add: validated_pairs_def map_filter_simps process_candidate_def)
  next
    case (Some long_form)
    with cand Cons.IH [of "store_mapping st (short_form, long_form)"] show ?thesis
      by (simp add: validated_pairs_def map_filter_simps process_candidate_def)
  qed
qed

lemma mappings_store_mapping:
  "acronym_mappings (store_mapping st (k, v)) =
     (if acronym_mappings st k = None then (acronym_mappings st)(k \<mapsto> v) else acronym_mappings st)"
  by (simp add: store_mapping_def Let_def)

lemma frequencies_store_mapping:
  "acronym_frequencies (store_mapping st (k, v)) = increment (acronym_frequencies st) k"
  by (simp add: store_mapping_def Let_def)

lemma standalone_store_mapping:
  "standalone_acronyms (store_mapping st p) = standalone_acronyms st"
  by (cases p) (simp add: store_mapping_def Let_def)

lemma mappings_foldl_store:
  "acronym_mappings (foldl store_mapping st pairs) sf =
     (case acronym_mappings st sf of Some l \<Rightarrow> Some l | None \<Rightarrow> map_of pairs sf)"
proof (induction pairs arbitrary: st)
  case Nil
  show ?case by (simp split: option.splits)
next
  case (Cons p pairs)
  obtain k v where p: "p = (k, v)" by (cases p)
  show ?case
    using Cons.IH [of "store_mapping st (k, v)"]
    by (auto simp: p mappings_store_mapping split: option.splits)
qed

lemma frequencies_foldl_store:
  "acronym_frequencies (foldl store_mapping st pairs) sf =
     (if count_list (map fst pairs) sf = 0 then acronym_frequencies st sf
      else Some ((case acronym_frequencies st sf of None \<Rightarrow> 0 | Some n \<Rightarrow> n)
                 + count_list (map fst pairs) sf))"
proof (induction pairs arbitrary: st)
  case Nil
  show ?case by simp
next
  case (Cons p pairs)
  obtain k v where p: "p = (k, v)" by (cases p)
  show ?case
    using Cons.IH [of "store_mapping st (k, v)"]
    by (auto simp: p frequencies_store_mapping increment_def split: option.splits)
qed

text \<open>
  C4. The loop over the candidates is the aggregator run over the validated pairs, in
  order. After any sequence of validated pairs, from any state, a short form that had
  no mapping has the long form of its first pair (\<open>map_of\<close> returns the first entry of a
  key), one that had a mapping keeps it, and the frequency of a short form has grown by
  the number of its pairs. In particular two pairs for one short form, from the empty
  state, leave the first long form with frequency 2.
\<close>

theorem first_occurrence_wins:
  "foldl process_candidate st candidates = foldl store_mapping st (validated_pairs candidates)
   \<and> acronym_mappings (foldl store_mapping st pairs) sf =
       (case acronym_mappings st sf of Some l \<Rightarrow> Some l | None \<Rightarrow> map_of pairs sf)
   \<and> acronym_frequencies (foldl store_mapping st pairs) sf =
       (if count_list (map fst pairs) sf = 0 then acronym_frequencies st sf
        else Some ((case acronym_frequencies st sf of None \<Rightarrow> 0 | Some n \<Rightarrow> n)
                   + count_list (map fst pairs) sf))
   \<and> acronym_mappings (foldl store_mapping new_extractor [(sf, lf1), (sf, lf2)]) sf = Some lf1
   \<and> acronym_frequencies (foldl store_mapping new_extractor [(sf, lf1), (sf, lf2)]) sf = Some 2"
proof -
  have "acronym_mappings (foldl store_mapping new_extractor [(sf, lf1), (sf, lf2)]) sf = Some lf1"
    by (simp add: mappings_store_mapping new_extractor_def)
  moreover
  have "acronym_frequencies (foldl store_mapping new_extractor [(sf, lf1), (sf, lf2)]) sf = Some 2"
    by (simp add: frequencies_store_mapping increment_def new_extractor_def)
  ultimately show ?thesis
    using process_candidates_validated mappings_foldl_store frequencies_foldl_store by blast
qed

text \<open>
  C2. The standalone count skips a token that is a mapping key at that moment, but a
  key that enters the mapping table later stays in the standalone table. A first
  document uses \<open>RD\<close> without defining it, a second one defines it: after both, \<open>RD\<close> is
  a key of both tables.
\<close>

theorem exclusivity_broken_across_documents:
  "(let st = process_all_pdfs new_extractor [''we use RD'', ''a Rapid Deployment (RD) unit'']
    in acronym_mappings st ''RD'' = Some ''Rapid Deployment''
       \<and> standalone_acronyms st ''RD'' = Some 1)"
  by code_simp

section \<open>Stored long forms\<close>

lemma space_is_space: "is_space_char CHR '' ''"
  by (simp add: is_space_char_def)

lemma upper_not_lower: "is_upper_char c \<Longrightarrow> \<not> is_lower_char c"
  by (simp add: is_upper_char_def is_lower_char_def)

lemma split_skip_space: "is_space_char d \<Longrightarrow> str_split (d # r) = str_split r"
  by (simp add: str_split.simps [of "d # r"] str_split.simps [of r])

lemma split_words_plain:
  "w \<in> set (str_split s) \<Longrightarrow> w \<noteq> [] \<and> \<not> list_ex is_space_char w"
proof (induction s arbitrary: w rule: str_split.induct)
  case (1 s)
  show ?case
  proof (cases "dropWhile is_space_char s")
    case Nil
    with "1.prems" show ?thesis
      by (simp add: str_split.simps [of s])
  next
    case (Cons c cs)
    have c: "\<not> is_space_char c"
      using hd_dropWhile [of is_space_char s] Cons by simp
    from "1.prems" Cons
    consider "w = c # takeWhile (\<lambda>x. \<not> is_space_char x) cs"
      | "w \<in> set (str_split (dropWhile (\<lambda>x. \<not> is_space_char x) cs))"
      by (auto simp: str_split.simps [of s])
    then show ?thesis
    proof cases
      case 1
      then show ?thesis
        using c by (auto simp: list_ex_iff dest: set_takeWhileD)
    next
      case 2
      then show ?thesis
        using "1.IH" [OF Cons] by simp
    qed
  qed
qed

lemma split_first_word:
  assumes "w \<noteq> []" and "\<not> list_ex is_space_char w" and "is_space_char d"
  shows "str_split (w @ d # r) = w # str_split r"
proof -
  from assms(1) obtain c w' where w: "w = c # w'"
    by (cases w) auto
  with assms(2) have c: "\<not> is_space_char c" and w': "\<And>x. x \<in> set w' \<Longrightarrow> \<not> is_space_char x"
    by (auto simp: list_ex_iff)
  have t: "takeWhile (\<lambda>x. \<not> is_space_char x) (w' @ d # r) = w'"
    using w' assms(3) by (simp add: takeWhile_append2)
  have d: "dropWhile (\<lambda>x. \<not> is_space_char x) (w' @ d # r) = d # r"
    using w' assms(3) by (simp add: dropWhile_append2)
  have "str_split (w @ d # r) = w # str_split (d # r)"
    using c t d by (simp add: w str_split.simps [of "c # w' @ d # r"])
  then show ?thesis
    using assms(3) by (simp add: split_skip_space)
qed

lemma split_plain_word:
  assumes "\<not> list_ex is_space_char w"
  shows "length (str_split w) \<le> 1"
proof (cases w)
  case Nil
  then show ?thesis by (simp add: str_split.simps [of "[]"])
next
  case (Cons c w')
  with assms have c: "\<not> is_space_char c" and w': "\<And>x. x \<in> set w' \<Longrightarrow> \<not> is_space_char x"
    by (auto simp: list_ex_iff)
  have dw: "dropWhile (\<lambda>x. \<not> is_space_char x) w' = []"
    using w' by simp
  have "str_split (dropWhile (\<lambda>x. \<not> is_space_char x) w') = str_split []"
    by (simp only: dw)
  also have "\<dots> = []"
    by (simp add: str_split.simps [of "[]"])
  finally show ?thesis
    using c by (simp add: Cons str_split.simps [of "c # w'"])
qed

lemma rstrip_prefix: "\<exists>ys. w = str_rstrip_chars w chars @ ys"
proof -
  have "rev w = takeWhile (\<lambda>c. c \<in> set chars) (rev w) @ dropWhile (\<lambda>c. c \<in> set chars) (rev w)"
    by simp
  then have "w = rev (dropWhile (\<lambda>c. c \<in> set chars) (rev w)) @ rev (takeWhile (\<lambda>c. c \<in> set chars) (rev w))"
    by (metis rev_append rev_rev_ident)
  then show ?thesis
    unfolding str_rstrip_chars_def by blast
qed

lemma clean_validated_well_formed:
  assumes v: "validate_long_form sf (clean_long_form lf0)"
  shows "well_formed_long_form (clean_long_form lf0)"
proof -
  define P where "P = (\<lambda>w. str_lower w \<in> set stop_words_sw \<or> \<not> first_isupper w)"
  define ws where "ws = dropWhile P (str_split lf0)"
  from v have ne: "clean_long_form lf0 \<noteq> []"
    and two: "2 \<le> length (str_split (clean_long_form lf0))"
    by (auto simp: validate_long_form_def split: if_splits)
  from ne have lf0: "lf0 \<noteq> []"
    by (auto simp: clean_long_form_def)
  define result where
    "result = str_join '' ''
       (if ws \<noteq> [] then butlast ws @ [str_rstrip_chars (last ws) ''.,;:!?''] else ws)"
  have clean: "clean_long_form lf0 =
      (case result of [] \<Rightarrow> result
       | c # cs \<Rightarrow> if is_lower_char c then upper_char c # cs else result)"
    using lf0 unfolding result_def ws_def P_def clean_long_form_def Let_def
    by (simp only: if_False)
  show ?thesis
  proof (cases ws)
    case Nil
    with clean ne show ?thesis by (simp add: result_def)
  next
    case (Cons w rest)
    have "\<not> P w"
      using hd_dropWhile [of P "str_split lf0"] Cons unfolding ws_def by simp
    then have stop: "str_lower w \<notin> set stop_words_sw" and up: "first_isupper w"
      by (simp_all add: P_def)
    have "w \<in> set (str_split lf0)"
      using set_dropWhileD [of w P "str_split lf0"] Cons unfolding ws_def by simp
    then have plain: "w \<noteq> []" "\<not> list_ex is_space_char w"
      using split_words_plain by blast+
    from up obtain c w' where w: "w = c # w'" and c: "is_upper_char c"
      by (auto simp: first_isupper_def split: list.splits)
    show ?thesis
    proof (cases rest)
      case Nil
      define r where "r = str_rstrip_chars w ''.,;:!?''"
      obtain ys where ys: "w = r @ ys"
        using rstrip_prefix [of w "''.,;:!?''"] unfolding r_def by blast
      then have rplain: "\<not> list_ex is_space_char r"
        using plain(2) by (auto simp: list_ex_iff)
      have "clean_long_form lf0 = r"
      proof (cases r)
        case Nil
        then show ?thesis
          using clean \<open>ws = w # rest\<close> \<open>rest = []\<close> by (simp add: r_def result_def)
      next
        case (Cons c' cs')
        with ys w have "c' = c" by simp
        then show ?thesis
          using clean \<open>ws = w # rest\<close> \<open>rest = []\<close> Cons c upper_not_lower
          by (simp add: r_def [symmetric] result_def)
      qed
      then show ?thesis
        using two split_plain_word [OF rplain] by simp
    next
      case (Cons v vs)
      obtain u us where rest': "butlast (v # vs) @ [str_rstrip_chars (last (v # vs)) ''.,;:!?''] = u # us"
        by (cases "butlast (v # vs) @ [str_rstrip_chars (last (v # vs)) ''.,;:!?'']") auto
      have "butlast ws @ [str_rstrip_chars (last ws) ''.,;:!?''] = w # u # us"
        using \<open>ws = w # rest\<close> Cons rest' by simp
      then have res: "clean_long_form lf0 = w @ '' '' @ str_join '' '' (u # us)"
        using clean \<open>ws = w # rest\<close> w c upper_not_lower by (simp add: result_def)
      have "str_split (w @ CHR '' '' # str_join '' '' (u # us)) = w # str_split (str_join '' '' (u # us))"
        using split_first_word [OF plain space_is_space] .
      then show ?thesis
        using res w c stop by (simp add: well_formed_long_form_def)
    qed
  qed
qed

lemma accepted_well_formed:
  "accepted_long_form sf cand = Some lf \<Longrightarrow> well_formed_long_form lf"
  using clean_validated_well_formed
  by (auto simp: accepted_long_form_def Let_def split: option.splits if_splits)

lemma foldl_invariant:
  assumes "\<And>s x. I s \<Longrightarrow> I (f s x)" and "I st"
  shows "I (foldl f st xs)"
  using assms(2) by (induction xs arbitrary: st) (auto intro: assms(1))

lemma foldl_unchanged:
  assumes "\<And>s x. g (f s x) = g s"
  shows "g (foldl f st xs) = g st"
  by (induction xs arbitrary: st) (auto simp: assms)

lemma mappings_count_standalone:
  "acronym_mappings (count_standalone st a) = acronym_mappings st"
  by (simp add: count_standalone_def)

lemma stored_process_candidate:
  assumes "stored_well_formed st"
  shows "stored_well_formed (process_candidate st cand)"
proof (cases cand)
  case (Pair short_form long_form_candidate)
  show ?thesis
  proof (cases "accepted_long_form short_form long_form_candidate")
    case None
    with Pair assms show ?thesis by (simp add: process_candidate_def)
  next
    case (Some long_form)
    then have "well_formed_long_form long_form"
      by (rule accepted_well_formed)
    with Pair Some assms show ?thesis
      by (auto simp: process_candidate_def stored_well_formed_def mappings_store_mapping
               split: if_splits)
  qed
qed

lemma stored_extract_acronyms:
  assumes "stored_well_formed st"
  shows "stored_well_formed (extract_acronyms st txt)"
proof -
  have "stored_well_formed (foldl process_candidate st cands)" for cands
    using stored_process_candidate assms by (rule foldl_invariant)
  moreover have "acronym_mappings (foldl count_standalone s accs) = acronym_mappings s" for s accs
    using mappings_count_standalone by (rule foldl_unchanged)
  ultimately show ?thesis
    by (simp add: extract_acronyms_def Let_def stored_well_formed_def)
qed

lemma stored_process_all_pdfs:
  assumes "stored_well_formed st"
  shows "stored_well_formed (process_all_pdfs st texts)"
  unfolding process_all_pdfs_def
proof (rule foldl_invariant)
  show "stored_well_formed st" by (rule assms)
next
  fix s x assume "stored_well_formed s"
  then show "stored_well_formed (process_pdf_sw s x)"
    by (simp add: process_pdf_sw_def stored_extract_acronyms)
qed

text \<open>
  C10. Every long form in the mapping table after any sequence of documents, from the
  empty extractor, is not empty, begins with a capital letter, and has a first word
  that, in lowercase, is not a stop word: \<^verbatim>\<open>clean_long_form\<close> drops the leading
  words that are stop words or not capitalised, and the validator then asks for two
  words, so the first word is unchanged by the stripping of the last one.
\<close>

theorem stored_long_forms_well_formed:
  "acronym_mappings (process_all_pdfs new_extractor texts) short_form = Some long_form
   \<Longrightarrow> well_formed_long_form long_form"
proof -
  have "stored_well_formed new_extractor"
    by (simp add: stored_well_formed_def new_extractor_def)
  then have "stored_well_formed (process_all_pdfs new_extractor texts)"
    by (rule stored_process_all_pdfs)
  then show "acronym_mappings (process_all_pdfs new_extractor texts) short_form = Some long_form
   \<Longrightarrow> well_formed_long_form long_form"
    by (simp add: stored_well_formed_def)
qed

theorem stored_long_forms_well_formed_witness:
  "acronym_mappings (process_all_pdfs new_extractor [''a Rapid Deployment (RD) unit'']) ''RD''
     = Some ''Rapid Deployment''
   \<and> well_formed_long_form ''Rapid Deployment''"
proof -
  have h: "acronym_mappings (process_all_pdfs new_extractor [''a Rapid Deployment (RD) unit'']) ''RD''
     = Some ''Rapid Deployment''"
    by code_simp
  from h stored_long_forms_well_formed [OF h] show ?thesis by simp
qed

section \<open>The state only grows\<close>

lemma increment_grows:
  "d k = Some n \<Longrightarrow> \<exists>n'. increment d j k = Some n' \<and> n \<le> n'"
  by (auto simp: increment_def)

lemma foldl_grows:
  fixes c :: "'s \<Rightarrow> nat option"
  assumes step: "\<And>s x n. c s = Some n \<Longrightarrow> \<exists>n'. c (f s x) = Some n' \<and> n \<le> n'"
  shows "c st = Some n \<Longrightarrow> \<exists>n'. c (foldl f st xs) = Some n' \<and> n \<le> n'"
proof (induction xs arbitrary: st n)
  case Nil
  then show ?case by simp
next
  case (Cons x xs)
  from step [OF Cons.prems] obtain m where m: "c (f st x) = Some m" "n \<le> m"
    by blast
  from Cons.IH [OF m(1)] obtain n' where "c (foldl f (f st x) xs) = Some n'" "m \<le> n'"
    by blast
  with m(2) show ?case by auto
qed

lemma foldl_keeps:
  assumes step: "\<And>s x. m s = Some v \<Longrightarrow> m (f s x) = Some v"
  shows "m st = Some v \<Longrightarrow> m (foldl f st xs) = Some v"
  by (induction xs arbitrary: st) (auto intro: step)

subsection \<open>Mapping mode\<close>

lemma mappings_process_candidate_keeps:
  "acronym_mappings st k = Some v \<Longrightarrow> acronym_mappings (process_candidate st cand) k = Some v"
  by (cases cand) (auto simp: process_candidate_def mappings_store_mapping split: option.splits)

lemma frequencies_process_candidate_grow:
  "acronym_frequencies st k = Some n
   \<Longrightarrow> \<exists>n'. acronym_frequencies (process_candidate st cand) k = Some n' \<and> n \<le> n'"
  by (cases cand)
    (auto simp: process_candidate_def frequencies_store_mapping increment_def split: option.splits)

lemma standalone_process_candidate:
  "standalone_acronyms (process_candidate st cand) = standalone_acronyms st"
  by (cases cand) (auto simp: process_candidate_def standalone_store_mapping split: option.splits)

lemma frequencies_count_standalone:
  "acronym_frequencies (count_standalone st a) = acronym_frequencies st"
  by (simp add: count_standalone_def)

lemma standalone_count_standalone_grow:
  "standalone_acronyms st k = Some n
   \<Longrightarrow> \<exists>n'. standalone_acronyms (count_standalone st a) k = Some n' \<and> n \<le> n'"
  by (auto simp: count_standalone_def increment_def)

lemma mappings_extract_acronyms_keeps:
  assumes "acronym_mappings st k = Some v"
  shows "acronym_mappings (extract_acronyms st txt) k = Some v"
proof -
  have "acronym_mappings (foldl process_candidate st cands) k = Some v" for cands
    using mappings_process_candidate_keeps assms
    by (rule foldl_keeps [where m = "\<lambda>s. acronym_mappings s k"])
  moreover have "acronym_mappings (foldl count_standalone s accs) = acronym_mappings s" for s accs
    using mappings_count_standalone by (rule foldl_unchanged)
  ultimately show ?thesis
    by (simp add: extract_acronyms_def Let_def)
qed

lemma frequencies_extract_acronyms_grow:
  assumes "acronym_frequencies st k = Some n"
  shows "\<exists>n'. acronym_frequencies (extract_acronyms st txt) k = Some n' \<and> n \<le> n'"
proof -
  have "\<exists>n'. acronym_frequencies (foldl process_candidate st cands) k = Some n' \<and> n \<le> n'" for cands
    using frequencies_process_candidate_grow assms
    by (rule foldl_grows [where c = "\<lambda>s. acronym_frequencies s k"])
  moreover have "acronym_frequencies (foldl count_standalone s accs) = acronym_frequencies s" for s accs
    using frequencies_count_standalone by (rule foldl_unchanged)
  ultimately show ?thesis
    by (simp add: extract_acronyms_def Let_def)
qed

lemma standalone_extract_acronyms_grow:
  assumes "standalone_acronyms st k = Some n"
  shows "\<exists>n'. standalone_acronyms (extract_acronyms st txt) k = Some n' \<and> n \<le> n'"
proof -
  have "standalone_acronyms (foldl process_candidate st cands) = standalone_acronyms st" for cands
    using standalone_process_candidate by (rule foldl_unchanged)
  then have "standalone_acronyms (foldl process_candidate st cands) k = Some n" for cands
    using assms by simp
  then have "\<exists>n'. standalone_acronyms (foldl count_standalone (foldl process_candidate st cands) accs) k
      = Some n' \<and> n \<le> n'" for cands accs
    using standalone_count_standalone_grow
    by (intro foldl_grows [where c = "\<lambda>s. standalone_acronyms s k"])
  then show ?thesis
    by (simp add: extract_acronyms_def Let_def)
qed

lemma mappings_process_all_pdfs_keeps:
  "acronym_mappings st k = Some v \<Longrightarrow> acronym_mappings (process_all_pdfs st texts) k = Some v"
  unfolding process_all_pdfs_def
  by (rule foldl_keeps [where m = "\<lambda>s. acronym_mappings s k"])
     (simp_all add: process_pdf_sw_def mappings_extract_acronyms_keeps)

lemma frequencies_process_all_pdfs_grow:
  "acronym_frequencies st k = Some n
   \<Longrightarrow> \<exists>n'. acronym_frequencies (process_all_pdfs st texts) k = Some n' \<and> n \<le> n'"
  unfolding process_all_pdfs_def
  by (rule foldl_grows [where c = "\<lambda>s. acronym_frequencies s k"])
     (simp_all add: process_pdf_sw_def frequencies_extract_acronyms_grow)

lemma standalone_process_all_pdfs_grow:
  "standalone_acronyms st k = Some n
   \<Longrightarrow> \<exists>n'. standalone_acronyms (process_all_pdfs st texts) k = Some n' \<and> n \<le> n'"
  unfolding process_all_pdfs_def
  by (rule foldl_grows [where c = "\<lambda>s. standalone_acronyms s k"])
     (simp_all add: process_pdf_sw_def standalone_extract_acronyms_grow)

subsection \<open>Vocabulary mode\<close>

lemma standalone_seen_process_word_grow:
  "standalone_acronyms_seen (fst acc) k = Some n
   \<Longrightarrow> \<exists>n'. standalone_acronyms_seen (fst (process_word stop_words acc word)) k = Some n' \<and> n \<le> n'"
  by (cases acc) (auto simp: process_word_def increment_def)

lemma lowercase_seen_process_word:
  "lowercase_seen (fst (process_word stop_words acc word)) = lowercase_seen (fst acc)"
  by (cases acc) (auto simp: process_word_def)

lemma standalone_seen_process_line_grow:
  "standalone_acronyms_seen (fst acc) k = Some n
   \<Longrightarrow> \<exists>n'. standalone_acronyms_seen (fst (process_line stop_words acc line)) k = Some n' \<and> n \<le> n'"
  unfolding process_line_def
  using standalone_seen_process_word_grow
  by (auto intro: foldl_grows [where c = "\<lambda>a. standalone_acronyms_seen (fst a) k"])

lemma lowercase_seen_process_line:
  "lowercase_seen (fst (process_line stop_words acc line)) = lowercase_seen (fst acc)"
  unfolding process_line_def
  using lowercase_seen_process_word
  by (auto intro: foldl_unchanged [where g = "\<lambda>a. lowercase_seen (fst a)"])

lemma standalone_seen_extract_words_grow:
  "standalone_acronyms_seen st k = Some n
   \<Longrightarrow> \<exists>n'. standalone_acronyms_seen (fst (extract_words_from_text stop_words st lines)) k = Some n'
            \<and> n \<le> n'"
  unfolding extract_words_from_text_def
  using standalone_seen_process_line_grow
  by (intro foldl_grows [where c = "\<lambda>a. standalone_acronyms_seen (fst a) k"]) auto

lemma lowercase_seen_extract_words:
  "lowercase_seen (fst (extract_words_from_text stop_words st lines)) = lowercase_seen st"
proof -
  have "lowercase_seen (fst (foldl (process_line stop_words) acc lines)) = lowercase_seen (fst acc)"
    for acc
    by (rule foldl_unchanged [where g = "\<lambda>a. lowercase_seen (fst a)"])
       (rule lowercase_seen_process_line)
  then show ?thesis
    by (simp add: extract_words_from_text_def)
qed

lemma standalone_seen_update_word_data:
  "standalone_acronyms_seen (update_word_data st lowercase_words) = standalone_acronyms_seen st"
  unfolding update_word_data_def
  by (rule foldl_unchanged) simp

lemma lowercase_seen_update_word_data_grow:
  "lowercase_seen st k = Some n
   \<Longrightarrow> \<exists>n'. lowercase_seen (update_word_data st lowercase_words) k = Some n' \<and> n \<le> n'"
  unfolding update_word_data_def
  by (rule foldl_grows [where c = "\<lambda>s. lowercase_seen s k"]) (auto simp: increment_def)

lemma standalone_seen_process_pdf_grow:
  assumes "standalone_acronyms_seen st k = Some n"
  shows "\<exists>n'. standalone_acronyms_seen (process_pdf_ac stop_words st lines) k = Some n' \<and> n \<le> n'"
proof -
  obtain st' lowercase_words where e: "extract_words_from_text stop_words st lines = (st', lowercase_words)"
    by (cases "extract_words_from_text stop_words st lines")
  from standalone_seen_extract_words_grow [OF assms, of stop_words lines] e
  have "\<exists>n'. standalone_acronyms_seen st' k = Some n' \<and> n \<le> n'"
    by simp
  with assms e show ?thesis
    by (auto simp: process_pdf_ac_def standalone_seen_update_word_data)
qed

lemma lowercase_seen_process_pdf_grow:
  assumes "lowercase_seen st k = Some n"
  shows "\<exists>n'. lowercase_seen (process_pdf_ac stop_words st lines) k = Some n' \<and> n \<le> n'"
proof -
  obtain st' lowercase_words where e: "extract_words_from_text stop_words st lines = (st', lowercase_words)"
    by (cases "extract_words_from_text stop_words st lines")
  from lowercase_seen_extract_words [of stop_words st lines] e
  have "lowercase_seen st' k = Some n"
    using assms by simp
  with assms e lowercase_seen_update_word_data_grow [of st' k n lowercase_words] show ?thesis
    by (auto simp: process_pdf_ac_def)
qed

lemma standalone_seen_process_all_grow:
  "standalone_acronyms_seen st k = Some n
   \<Longrightarrow> \<exists>n'. standalone_acronyms_seen (process_all_documents stop_words st docs) k = Some n' \<and> n \<le> n'"
  unfolding process_all_documents_def
  by (rule foldl_grows [where c = "\<lambda>s. standalone_acronyms_seen s k"])
     (simp_all add: standalone_seen_process_pdf_grow)

lemma lowercase_seen_process_all_grow:
  "lowercase_seen st k = Some n
   \<Longrightarrow> \<exists>n'. lowercase_seen (process_all_documents stop_words st docs) k = Some n' \<and> n \<le> n'"
  unfolding process_all_documents_def
  by (rule foldl_grows [where c = "\<lambda>s. lowercase_seen s k"])
     (simp_all add: lowercase_seen_process_pdf_grow)

text \<open>
  C9. From any state and for any sequence of documents: a key of the mapping table
  keeps its long form, and every counter that exists (frequencies and standalone
  acronyms of the mapping mode, lowercase words and standalone acronyms of the
  vocabulary mode) still exists afterwards with a value that is not smaller.
\<close>

theorem state_only_grows:
  "(\<forall>k v. acronym_mappings st k = Some v
      \<longrightarrow> acronym_mappings (process_all_pdfs st texts) k = Some v)
   \<and> (\<forall>k n. acronym_frequencies st k = Some n
      \<longrightarrow> (\<exists>n'. acronym_frequencies (process_all_pdfs st texts) k = Some n' \<and> n \<le> n'))
   \<and> (\<forall>k n. standalone_acronyms st k = Some n
      \<longrightarrow> (\<exists>n'. standalone_acronyms (process_all_pdfs st texts) k = Some n' \<and> n \<le> n'))
   \<and> (\<forall>k n. lowercase_seen ps k = Some n
      \<longrightarrow> (\<exists>n'. lowercase_seen (process_all_documents stop_words ps docs) k = Some n' \<and> n \<le> n'))
   \<and> (\<forall>k n. standalone_acronyms_seen ps k = Some n
      \<longrightarrow> (\<exists>n'. standalone_acronyms_seen (process_all_documents stop_words ps docs) k = Some n'
                \<and> n \<le> n'))"
proof (intro conjI allI impI)
  fix k v
  assume "acronym_mappings st k = Some v"
  then show "acronym_mappings (process_all_pdfs st texts) k = Some v"
    by (rule mappings_process_all_pdfs_keeps)
next
  fix k n
  assume "acronym_frequencies st k = Some n"
  then show "\<exists>n'. acronym_frequencies (process_all_pdfs st texts) k = Some n' \<and> n \<le> n'"
    by (rule frequencies_process_all_pdfs_grow)
next
  fix k n
  assume "standalone_acronyms st k = Some n"
  then show "\<exists>n'. standalone_acronyms (process_all_pdfs st texts) k = Some n' \<and> n \<le> n'"
    by (rule standalone_process_all_pdfs_grow)
next
  fix k n
  assume "lowercase_seen ps k = Some n"
  then show "\<exists>n'. lowercase_seen (process_all_documents stop_words ps docs) k = Some n' \<and> n \<le> n'"
    by (rule lowercase_seen_process_all_grow)
next
  fix k n
  assume "standalone_acronyms_seen ps k = Some n"
  then show "\<exists>n'. standalone_acronyms_seen (process_all_documents stop_words ps docs) k = Some n'
      \<and> n \<le> n'"
    by (rule standalone_seen_process_all_grow)
qed

theorem state_only_grows_witness:
  "acronym_mappings
     (process_all_pdfs
        \<lparr>acronym_mappings = [''RD'' \<mapsto> ''Rapid Deployment''],
         acronym_frequencies = [''RD'' \<mapsto> 1],
         standalone_acronyms = [''USN'' \<mapsto> 2]\<rparr>
        [''a Rapid Deployment (RD) unit of the USN'']) ''RD'' = Some ''Rapid Deployment''
   \<and> (\<exists>n'. acronym_frequencies
     (process_all_pdfs
        \<lparr>acronym_mappings = [''RD'' \<mapsto> ''Rapid Deployment''],
         acronym_frequencies = [''RD'' \<mapsto> 1],
         standalone_acronyms = [''USN'' \<mapsto> 2]\<rparr>
        [''a Rapid Deployment (RD) unit of the USN'']) ''RD'' = Some n' \<and> 1 \<le> n')
   \<and> (\<exists>n'. standalone_acronyms
     (process_all_pdfs
        \<lparr>acronym_mappings = [''RD'' \<mapsto> ''Rapid Deployment''],
         acronym_frequencies = [''RD'' \<mapsto> 1],
         standalone_acronyms = [''USN'' \<mapsto> 2]\<rparr>
        [''a Rapid Deployment (RD) unit of the USN'']) ''USN'' = Some n' \<and> 2 \<le> n')
   \<and> (\<exists>n'. lowercase_seen
     (process_all_documents [''the'', ''of'']
        \<lparr>lowercase_seen = [''ship'' \<mapsto> 3], standalone_acronyms_seen = [''USN'' \<mapsto> 1]\<rparr>
        [[''the ship of the USN'']]) ''ship'' = Some n' \<and> 3 \<le> n')
   \<and> (\<exists>n'. standalone_acronyms_seen
     (process_all_documents [''the'', ''of'']
        \<lparr>lowercase_seen = [''ship'' \<mapsto> 3], standalone_acronyms_seen = [''USN'' \<mapsto> 1]\<rparr>
        [[''the ship of the USN'']]) ''USN'' = Some n' \<and> 1 \<le> n')"
  using state_only_grows
    [of "\<lparr>acronym_mappings = [''RD'' \<mapsto> ''Rapid Deployment''],
         acronym_frequencies = [''RD'' \<mapsto> 1],
         standalone_acronyms = [''USN'' \<mapsto> 2]\<rparr>"
        "[''a Rapid Deployment (RD) unit of the USN'']"
        "\<lparr>lowercase_seen = [''ship'' \<mapsto> 3], standalone_acronyms_seen = [''USN'' \<mapsto> 1]\<rparr>"
        "[''the'', ''of'']" "[[''the ship of the USN'']]"]
  by simp

section \<open>A heading line\<close>

lemma split_on_nonempty: "str_split_on sep s \<noteq> []"
  by (induction s) (auto split: list.splits)

lemma split_on_append:
  "str_split_on sep (a @ sep # b) = str_split_on sep a @ str_split_on sep b"
proof (induction a)
  case Nil
  show ?case by simp
next
  case (Cons c a)
  obtain w ws where w: "str_split_on sep a = w # ws"
    using split_on_nonempty [of sep a] by (cases "str_split_on sep a") auto
  with Cons show ?case by simp
qed

lemma chapter_line_facts:
  "str_strip ''CHAPTER 1: INTRODUCTION'' = ''CHAPTER 1: INTRODUCTION''"
  "str_split ''CHAPTER 1: INTRODUCTION'' = [''CHAPTER'', ''1:'', ''INTRODUCTION'']"
  "str_isupper ''CHAPTER 1: INTRODUCTION''"
  "rule_keyword heading_keywords_sw ''CHAPTER 1: INTRODUCTION''"
  "rule_keyword heading_keywords_ac ''CHAPTER 1: INTRODUCTION''"
  "\<not> str_endswith ''CHAPTER 1: INTRODUCTION'' '':''"
  "str_split_on (CHR 0x0A) ''CHAPTER 1: INTRODUCTION'' = [''CHAPTER 1: INTRODUCTION'']"
  by code_simp+

lemma chapter_line_heading:
  "is_heading_sw ''CHAPTER 1: INTRODUCTION''" "is_heading_ac ''CHAPTER 1: INTRODUCTION''"
  using chapter_line_facts(1,2,3)
  by (simp_all add: is_heading_sw_def is_heading_ac_def rule_allcaps_sw_def rule_allcaps_ac_def)

lemma chapter_line_removed:
  "remove_headings_from_text (pre @ [CHR 0x0A] @ ''CHAPTER 1: INTRODUCTION'' @ [CHR 0x0A] @ post)
     = remove_headings_from_text (pre @ [CHR 0x0A] @ post)"
  "remove_headings_from_text (''CHAPTER 1: INTRODUCTION'' @ [CHR 0x0A] @ post)
     = remove_headings_from_text post"
  "remove_headings_from_text (pre @ [CHR 0x0A] @ ''CHAPTER 1: INTRODUCTION'')
     = remove_headings_from_text pre"
proof -
  have a: "str_split_on (CHR 0x0A) (pre @ CHR 0x0A # ''CHAPTER 1: INTRODUCTION'' @ CHR 0x0A # post)
    = str_split_on (CHR 0x0A) pre @ [''CHAPTER 1: INTRODUCTION''] @ str_split_on (CHR 0x0A) post"
    by (simp only: split_on_append chapter_line_facts(7))
  have b: "str_split_on (CHR 0x0A) (pre @ CHR 0x0A # post)
    = str_split_on (CHR 0x0A) pre @ str_split_on (CHR 0x0A) post"
    by (simp only: split_on_append)
  have c: "str_split_on (CHR 0x0A) (''CHAPTER 1: INTRODUCTION'' @ CHR 0x0A # post)
    = [''CHAPTER 1: INTRODUCTION''] @ str_split_on (CHR 0x0A) post"
    by (simp only: split_on_append chapter_line_facts(7))
  have d: "str_split_on (CHR 0x0A) (pre @ CHR 0x0A # ''CHAPTER 1: INTRODUCTION'')
    = str_split_on (CHR 0x0A) pre @ [''CHAPTER 1: INTRODUCTION'']"
    by (simp only: split_on_append chapter_line_facts(7))
  show "remove_headings_from_text (pre @ [CHR 0x0A] @ ''CHAPTER 1: INTRODUCTION'' @ [CHR 0x0A] @ post)
     = remove_headings_from_text (pre @ [CHR 0x0A] @ post)"
    using a b chapter_line_heading(1) by (simp add: remove_headings_from_text_def)
  show "remove_headings_from_text (''CHAPTER 1: INTRODUCTION'' @ [CHR 0x0A] @ post)
     = remove_headings_from_text post"
    using c chapter_line_heading(1) by (simp add: remove_headings_from_text_def)
  show "remove_headings_from_text (pre @ [CHR 0x0A] @ ''CHAPTER 1: INTRODUCTION'')
     = remove_headings_from_text pre"
    using d chapter_line_heading(1) by (simp add: remove_headings_from_text_def)
qed

lemma chapter_line_alone:
  "extract_acronyms st ''CHAPTER 1: INTRODUCTION'' = st"
proof -
  have "remove_headings_from_text ''CHAPTER 1: INTRODUCTION'' = []"
    using chapter_line_facts(7) chapter_line_heading(1)
    by (simp add: remove_headings_from_text_def)
  moreover have "finditer [] = []" "findall_acronyms False [] = []"
    by code_simp+
  ultimately show ?thesis
    by (simp add: extract_acronyms_def extract_candidates_from_parentheses_def map_filter_simps)
qed

text \<open>
  C7, as stated: the ends-with-colon rule would have to hold for the line
  \<open>CHAPTER 1: INTRODUCTION\<close>. It does not: the colon is inside the line, which ends
  with a letter.
\<close>

theorem chapter_line_not_colon:
  "\<not> rule_colon ''CHAPTER 1: INTRODUCTION''"
  by code_simp

text \<open>
  C7, amended: the line \<open>CHAPTER 1: INTRODUCTION\<close> is a heading in both modes. The
  all-uppercase rule (the first one tried) and the heading-keyword rule hold for it in
  both modes; the ends-with-colon rule does not. As a line of a text (between two
  other parts, first, last, or alone) it changes nothing in the extraction of the
  mapping mode, and as a line of a document it changes nothing in the extraction of the
  vocabulary mode.
\<close>

theorem chapter_line_is_heading:
  "is_heading_sw ''CHAPTER 1: INTRODUCTION'' = True
   \<and> is_heading_ac ''CHAPTER 1: INTRODUCTION'' = True
   \<and> rule_allcaps_sw ''CHAPTER 1: INTRODUCTION'' = True
   \<and> rule_allcaps_ac ''CHAPTER 1: INTRODUCTION'' = True
   \<and> rule_keyword heading_keywords_sw ''CHAPTER 1: INTRODUCTION'' = True
   \<and> rule_keyword heading_keywords_ac ''CHAPTER 1: INTRODUCTION'' = True
   \<and> rule_colon ''CHAPTER 1: INTRODUCTION'' = False
   \<and> extract_acronyms st (pre @ [CHR 0x0A] @ ''CHAPTER 1: INTRODUCTION'' @ [CHR 0x0A] @ post)
       = extract_acronyms st (pre @ [CHR 0x0A] @ post)
   \<and> extract_acronyms st (''CHAPTER 1: INTRODUCTION'' @ [CHR 0x0A] @ post)
       = extract_acronyms st post
   \<and> extract_acronyms st (pre @ [CHR 0x0A] @ ''CHAPTER 1: INTRODUCTION'')
       = extract_acronyms st pre
   \<and> extract_acronyms st ''CHAPTER 1: INTRODUCTION'' = st
   \<and> extract_words_from_text stop_words ps (before @ [''CHAPTER 1: INTRODUCTION''] @ after)
       = extract_words_from_text stop_words ps (before @ after)"
proof -
  have "extract_acronyms st (pre @ [CHR 0x0A] @ ''CHAPTER 1: INTRODUCTION'' @ [CHR 0x0A] @ post)
       = extract_acronyms st (pre @ [CHR 0x0A] @ post)"
    unfolding extract_acronyms_def by (simp only: chapter_line_removed(1))
  moreover
  have "extract_acronyms st (''CHAPTER 1: INTRODUCTION'' @ [CHR 0x0A] @ post)
       = extract_acronyms st post"
    unfolding extract_acronyms_def by (simp only: chapter_line_removed(2))
  moreover
  have "extract_acronyms st (pre @ [CHR 0x0A] @ ''CHAPTER 1: INTRODUCTION'')
       = extract_acronyms st pre"
    unfolding extract_acronyms_def by (simp only: chapter_line_removed(3))
  moreover
  have "extract_words_from_text stop_words ps (before @ [''CHAPTER 1: INTRODUCTION''] @ after)
       = extract_words_from_text stop_words ps (before @ after)"
    using chapter_line_heading(2) by (simp add: extract_words_from_text_def process_line_def)
  ultimately show ?thesis
    using chapter_line_facts chapter_line_heading chapter_line_alone
    by (simp add: rule_allcaps_sw_def rule_allcaps_ac_def rule_colon_def)
qed

end
